theory Spec2Isabelle
  imports Complex_Main
begin

section \<open>The map-reduce summarisation pipeline of app.py\<close>

text \<open>
  The script extracts text from an uploaded file, cuts it into chunks of 3000 characters,
  asks a language model for the key ideas of each of the first six chunks, joins the
  answers with newlines and asks the model once more for a final summary in one of three
  styles. The theory embeds the part of the script that starts after the extraction
  (the guard on the extracted text, the chunker, the map loop, the join, the selection
  of the mode, the final request and the display of its answer) and proves what the
  specification says about it.
\<close>

subsection \<open>Errors, strings and the string methods the script calls\<close>

text \<open>
  The script raises nothing itself; an exception can come from \<open>range\<close> with step 0,
  from the language-model client, from \<open>res.choices[0]\<close> on an empty list and from
  \<open>.strip()\<close> on a content that is \<open>None\<close>.
\<close>

datatype error = CapabilityFailure | IndexError | AttributeError | ValueError

text \<open>
  A Python \<open>str\<close> is a sequence of Unicode code points, and \<open>len\<close> and slicing count code
  points. A code point is a natural number here; \<open>str\<close> turns an ASCII literal into
  its code points.
\<close>

type_synonym codepoint = nat
type_synonym pystr = "codepoint list"

definition str :: "string \<Rightarrow> pystr" where
  "str s = map of_char s"

definition nl :: codepoint where
  "nl = 10"

text \<open>
  \<open>str.isspace\<close> for one code point, as CPython decides it: the ASCII table entries
  9 to 13, 28 to 31 and 32, and the code points of \<open>_PyUnicode_IsWhitespace\<close>.
\<close>

definition isspace :: "codepoint \<Rightarrow> bool" where
  "isspace c \<longleftrightarrow>
     (9 \<le> c \<and> c \<le> 13) \<or> (28 \<le> c \<and> c \<le> 32) \<or> c = 133 \<or> c = 160 \<or> c = 5760 \<or>
     (8192 \<le> c \<and> c \<le> 8202) \<or> c = 8232 \<or> c = 8233 \<or> c = 8239 \<or> c = 8287 \<or> c = 12288"

text \<open>\<open>s.strip()\<close>: the whitespace at both ends is removed.\<close>

definition strip :: "pystr \<Rightarrow> pystr" where
  "strip s = rev (dropWhile isspace (rev (dropWhile isspace s)))"

text \<open>\<open>sep.join(xs)\<close>.\<close>

fun join :: "'a list \<Rightarrow> 'a list list \<Rightarrow> 'a list" where
  "join sep [] = []"
| "join sep [x] = x"
| "join sep (x # y # ys) = x @ sep @ join sep (y # ys)"

subsection \<open>The chunker\<close>

text \<open>
  \<open>range(start, stop, step)\<close> as the list of its elements: it raises ValueError at
  step 0, counts upwards for a positive step and downwards for a negative one.
\<close>

function range_up :: "int \<Rightarrow> int \<Rightarrow> int \<Rightarrow> int list" where
  "range_up i stop step =
     (if 0 < step \<and> i < stop then i # range_up (i + step) stop step else [])"
  by pat_completeness auto
termination
  by (relation "measure (\<lambda>(i, stop, step). nat (stop - i))") auto

function range_down :: "int \<Rightarrow> int \<Rightarrow> int \<Rightarrow> int list" where
  "range_down i stop step =
     (if step < 0 \<and> stop < i then i # range_down (i + step) stop step else [])"
  by pat_completeness auto
termination
  by (relation "measure (\<lambda>(i, stop, step). nat (i - stop))") auto

definition py_range :: "int \<Rightarrow> int \<Rightarrow> int \<Rightarrow> error + int list" where
  "py_range start stop step =
     (if step = 0 then Inl ValueError
      else if 0 < step then Inr (range_up start stop step)
      else Inr (range_down start stop step))"

text \<open>
  \<open>xs[i:j]\<close>: a negative bound counts from the end, and both bounds are clamped to
  \<open>0 .. len(xs)\<close>; an empty or inverted interval gives the empty sequence.
\<close>

definition slice_bound :: "nat \<Rightarrow> int \<Rightarrow> nat" where
  "slice_bound n i = (if i < 0 then nat (max (i + int n) 0) else min (nat i) n)"

definition py_slice :: "'a list \<Rightarrow> int \<Rightarrow> int \<Rightarrow> 'a list" where
  "py_slice xs i j =
     (let lo = slice_bound (length xs) i; hi = slice_bound (length xs) j
      in take (hi - lo) (drop lo xs))"

text \<open>
  \<^verbatim>\<open>def chunk_text(text, max_chars=3000):
    return [text[i:i + max_chars] for i in range(0, len(text), max_chars)]\<close>
\<close>

definition chunk_text :: "'a list \<Rightarrow> int \<Rightarrow> error + 'a list list" where
  "chunk_text text max_chars =
     (case py_range 0 (int (length text)) max_chars of
        Inl e \<Rightarrow> Inl e
      | Inr starts \<Rightarrow> Inr (map (\<lambda>i. py_slice text i (i + max_chars)) starts))"

definition default_max_chars :: int where
  "default_max_chars = 3000"

subsection \<open>The language-model capability\<close>

text \<open>
  A request is what \<open>client.chat.completions.create\<close> receives: the model identifier,
  the role-tagged messages in order and \<open>max_tokens\<close>.
\<close>

record message =
  role :: pystr
  content :: pystr

record request =
  model :: pystr
  messages :: "message list"
  max_tokens :: int

text \<open>
  A response is the list of its choices, each with the content of its message, which the
  API may leave out (\<open>None\<close>). The client is a black box: it answers a request with a
  response or raises, and its answer may depend on the requests it has received before.
\<close>

type_synonym response = "pystr option list"
type_synonym capability = "request list \<Rightarrow> request \<Rightarrow> error + response"

definition MODEL :: pystr where
  "MODEL = str ''llama-3.1-8b-instant''"

text \<open>\<open>res.choices[0].message.content\<close>, before \<open>.strip()\<close> is called on it.\<close>

definition first_content :: "response \<Rightarrow> error + pystr" where
  "first_content res =
     (case res of
        [] \<Rightarrow> Inl IndexError
      | None # _ \<Rightarrow> Inl AttributeError
      | Some c # _ \<Rightarrow> Inr c)"

subsection \<open>What a run does: requests issued and elements shown\<close>

datatype ui_event =
  Spinner pystr | Error pystr | Success pystr | Subheader pystr | Markdown pystr

record run_state =
  issued :: "request list"
  shown :: "ui_event list"

definition start :: run_state where
  "start = \<lparr>issued = [], shown = []\<rparr>"

definition send :: "capability \<Rightarrow> request \<Rightarrow> run_state \<Rightarrow> (error + response) \<times> run_state" where
  "send client req s = (client (issued s) req, s\<lparr>issued := issued s @ [req]\<rparr>)"

definition display :: "ui_event \<Rightarrow> run_state \<Rightarrow> run_state" where
  "display e s = s\<lparr>shown := shown s @ [e]\<rparr>"

subsection \<open>The map step\<close>

text \<open>The request of the loop body for one chunk.\<close>

definition map_system_prompt :: pystr where
  "map_system_prompt = str ''Extract only key ideas. No explanations.''"

definition map_request :: "pystr \<Rightarrow> request" where
  "map_request chunk =
     \<lparr>model = MODEL,
      messages = [\<lparr>role = str ''system'', content = map_system_prompt\<rparr>,
                  \<lparr>role = str ''user'', content = chunk\<rparr>],
      max_tokens = 120\<rparr>"

text \<open>
  The loop \<open>for chunk in ...\<close>: one request per chunk, the stripped content of the first
  choice appended to \<open>partial_summaries\<close>. An exception leaves the loop and the run.
\<close>

fun map_loop ::
  "capability \<Rightarrow> pystr list \<Rightarrow> pystr list \<Rightarrow> run_state \<Rightarrow> (error + pystr list) \<times> run_state"
where
  "map_loop client [] partial_summaries s = (Inr partial_summaries, s)"
| "map_loop client (chunk # rest) partial_summaries s =
     (case send client (map_request chunk) s of
        (Inl e, s') \<Rightarrow> (Inl e, s')
      | (Inr res, s') \<Rightarrow>
          (case first_content res of
             Inl e \<Rightarrow> (Inl e, s')
           | Inr c \<Rightarrow> map_loop client rest (partial_summaries @ [strip c]) s'))"

text \<open>\<open>partial_summaries = []\<close>, then the loop over \<open>chunks[:6]\<close>.\<close>

definition map_step ::
  "capability \<Rightarrow> pystr list \<Rightarrow> run_state \<Rightarrow> (error + pystr list) \<times> run_state"
where
  "map_step client chunks s = map_loop client (take 6 chunks) [] s"

subsection \<open>The combiner\<close>

definition combined_text :: "pystr list \<Rightarrow> pystr" where
  "combined_text partial_summaries = join [nl] partial_summaries"

subsection \<open>The summary modes\<close>

text \<open>
  A triple-quoted literal whose text starts on the line after the opening quotes and ends
  with a line break before the closing ones is its lines, the first one empty, each
  followed by a newline.
\<close>

definition py_lines :: "pystr list \<Rightarrow> pystr" where
  "py_lines ls = concat (map (\<lambda>l. l @ [nl]) ls)"

definition en_dash :: codepoint where
  "en_dash = 8211"

definition short_prompt :: pystr where
  "short_prompt = py_lines
     [[],
      str ''Write a concise executive-style summary.'',
      [],
      str ''RULES:'',
      str ''- One short paragraph'',
      str ''- Simple language'',
      str ''- No headings'',
      str ''- No definitions'',
      str ''- Focus on overall meaning'',
      str ''- 120'' @ [en_dash] @ str ''150 tokens'']"

definition topic_prompt :: pystr where
  "topic_prompt = py_lines
     [[],
      str ''Create a TOPIC-WISE summary.'',
      [],
      str ''RULES:'',
      str ''- Use clear topic headings'',
      str ''- 2'' @ [en_dash] @ str ''3 short sentences per topic'',
      str ''- Simple student-friendly language'',
      str ''- No formulas or definitions'',
      str ''- Do not repeat topics'',
      [],
      str ''FORMAT:'',
      str ''## Topic Name'',
      str ''Explanation'']"

definition bullet_prompt :: pystr where
  "bullet_prompt = py_lines
     [[],
      str ''Create a BULLET-POINT summary.'',
      [],
      str ''RULES:'',
      str ''- 8'' @ [en_dash] @ str ''12 bullet points'',
      str ''- Each bullet = one clear idea'',
      str ''- No explanations'',
      str ''- No definitions'',
      str ''- Easy to scan and act on'']"

text \<open>The \<open>if\<close>/\<open>elif\<close>/\<open>else\<close> on \<open>summary_type\<close>: the pair \<open>(final_prompt, max_tokens)\<close>.\<close>

definition summary_mode :: "pystr \<Rightarrow> pystr \<times> int" where
  "summary_mode summary_type =
     (if summary_type = str ''Short Summary (Recommended)'' then (short_prompt, 170)
      else if summary_type = str ''Topic-wise Summary'' then (topic_prompt, 600)
      else (bullet_prompt, 300))"

subsection \<open>The reduce step\<close>

definition reduce_request :: "pystr \<Rightarrow> int \<Rightarrow> pystr \<Rightarrow> request" where
  "reduce_request final_prompt budget combined =
     \<lparr>model = MODEL,
      messages = [\<lparr>role = str ''system'', content = final_prompt\<rparr>,
                  \<lparr>role = str ''user'', content = combined\<rparr>],
      max_tokens = budget\<rparr>"

text \<open>
  The selection of the mode, the final request and what follows it in the script:
  \<open>st.success\<close>, \<open>st.subheader\<close> and
  \<open>st.markdown(final_response.choices[0].message.content.strip())\<close>. The argument of
  the last call is evaluated after the first two elements are shown, and raises on a
  response without choices or without content.
\<close>

definition reduce_step ::
  "capability \<Rightarrow> pystr \<Rightarrow> pystr \<Rightarrow> run_state \<Rightarrow> (error + unit) \<times> run_state"
where
  "reduce_step client summary_type combined s =
     (case summary_mode summary_type of
        (final_prompt, budget) \<Rightarrow>
          (case send client (reduce_request final_prompt budget combined)
                  (display (Spinner (str ''Generating summary...'')) s) of
             (Inl e, s') \<Rightarrow> (Inl e, s')
           | (Inr final_response, s') \<Rightarrow>
               (let s'' = display (Subheader (str ''Summary''))
                            (display (Success (str ''Summary Generated'')) s')
                in case first_content final_response of
                     Inl e \<Rightarrow> (Inl e, s'')
                   | Inr c \<Rightarrow> (Inr (), display (Markdown (strip c)) s''))))"

subsection \<open>The run after the extraction\<close>

text \<open>
  \<open>text\<close> is what \<open>extract_text\<close> returned, \<open>None\<close> or a string. The guard
  \<open>not text or not text.strip()\<close> holds for \<open>None\<close>, for the empty string and for a
  string that strips to the empty one.
\<close>

definition halt_empty :: "(error + unit) \<times> run_state" where
  "halt_empty = (Inr (), display (Error (str ''Unsupported or empty file.'')) start)"

definition pipeline ::
  "capability \<Rightarrow> pystr \<Rightarrow> pystr option \<Rightarrow> (error + unit) \<times> run_state"
where
  "pipeline client summary_type text =
     (case text of
        None \<Rightarrow> halt_empty
      | Some t \<Rightarrow>
          if t = [] \<or> strip t = [] then halt_empty
          else
            (case chunk_text t default_max_chars of
               Inl e \<Rightarrow> (Inl e, start)
             | Inr chunks \<Rightarrow>
                 (case map_step client chunks
                         (display (Spinner (str ''Reading document...'')) start) of
                    (Inl e, s) \<Rightarrow> (Inl e, s)
                  | (Inr partial_summaries, s) \<Rightarrow>
                      reduce_step client summary_type
                        (combined_text partial_summaries) s)))"

subsection \<open>Clients and inputs for the concrete runs\<close>

text \<open>
  A client that answers the requests of a run from a script, the k-th request with one
  choice holding the k-th text, and raises once the script is used up.
\<close>

definition scripted_client :: "pystr list \<Rightarrow> capability" where
  "scripted_client answers history req =
     (if length history < length answers then Inr [Some (answers ! length history)]
      else Inl CapabilityFailure)"

definition hello :: pystr where
  "hello = str ''Hello world.''"

section \<open>Properties\<close>

subsection \<open>The chunker\<close>

declare range_up.simps [simp del]


lemma py_slice_chunk:
  assumes "0 \<le> i" "0 < m"
  shows "py_slice xs i (i + m) = take (nat m) (drop (nat i) xs)"
proof -
  have "nat (i + m) = nat i + nat m" using assms by (simp add: nat_add_distrib)
  then show ?thesis using assms
    by (simp add: py_slice_def slice_bound_def Let_def min_def)
qed

lemma concat_range_up:
  "0 \<le> i \<Longrightarrow> 0 < m \<Longrightarrow>
   concat (map (\<lambda>k. py_slice xs k (k + m)) (range_up i (int (length xs)) m)) = drop (nat i) xs"
proof (induction i "int (length xs)" m rule: range_up.induct)
  case (1 i step)
  show ?case
  proof (cases "i < int (length xs)")
    case True
    have eq: "range_up i (int (length xs)) step = i # range_up (i + step) (int (length xs)) step"
      using 1 True by (subst range_up.simps) simp
    have "nat (i + step) = nat step + nat i" using 1 by (simp add: nat_add_distrib)
    then have d: "drop (nat (i + step)) xs = drop (nat step) (drop (nat i) xs)"
      by simp
    have ih: "concat (map (\<lambda>k. py_slice xs k (k + step)) (range_up (i + step) (int (length xs)) step))
        = drop (nat (i + step)) xs"
      using 1 True by simp
    have "concat (map (\<lambda>k. py_slice xs k (k + step)) (range_up i (int (length xs)) step))
        = take (nat step) (drop (nat i) xs) @ drop (nat step) (drop (nat i) xs)"
      unfolding eq using 1 ih d by (simp only: list.map concat.simps py_slice_chunk)
    then show ?thesis by (simp only: append_take_drop_id)
  next
    case False
    then show ?thesis using 1 by (subst range_up.simps) simp
  qed
qed

lemma range_up_nth:
  "0 < m \<Longrightarrow> k < length (range_up i n m) \<Longrightarrow> range_up i n m ! k = i + int k * m"
proof (induction i n m arbitrary: k rule: range_up.induct)
  case (1 i stop step)
  show ?case
  proof (cases "i < stop")
    case True
    then have eq: "range_up i stop step = i # range_up (i + step) stop step"
      using 1 by (subst range_up.simps) simp
    show ?thesis
    proof (cases k)
      case 0
      then show ?thesis by (simp add: eq)
    next
      case (Suc k')
      then have "k' < length (range_up (i + step) stop step)" using 1(3) eq by simp
      then have "range_up (i + step) stop step ! k' = i + step + int k' * step"
        using 1 True by simp
      then show ?thesis using Suc by (simp add: eq algebra_simps)
    qed
  next
    case False
    then have "range_up i stop step = []" by (subst range_up.simps) simp
    then show ?thesis using 1 by simp
  qed
qed

lemma range_up_length:
  "0 < m \<Longrightarrow> int (length (range_up i n m)) = (if i < n then (n - i + m - 1) div m else 0)"
proof (induction i n m rule: range_up.induct)
  case (1 i stop step)
  show ?case
  proof (cases "i < stop")
    case True
    then have eq: "range_up i stop step = i # range_up (i + step) stop step"
      using 1 by (subst range_up.simps) simp
    have ih: "int (length (range_up (i + step) stop step)) =
         (if i + step < stop then (stop - (i + step) + step - 1) div step else 0)"
      using 1 True by simp
    show ?thesis
    proof (cases "i + step < stop")
      case True
      have "(stop - i + step - 1) div step = (stop - (i + step) + step - 1 + step) div step"
        by (simp add: algebra_simps)
      also have "\<dots> = (stop - (i + step) + step - 1) div step + 1"
        using 1(2) by simp
      finally show ?thesis using ih True \<open>i < stop\<close> by (simp add: eq)
    next
      case False
      have "0 \<le> stop - i - 1" "stop - i - 1 < step" using False \<open>i < stop\<close> by auto
      moreover have "stop - i + step - 1 = (stop - i - 1) + step" by simp
      ultimately have "(stop - i + step - 1) div step = 1"
        using 1(2) by (simp only: div_add_self2 div_pos_pos_trivial)
      then show ?thesis using ih False \<open>i < stop\<close> by (simp add: eq)
    qed
  next
    case False
    then have "range_up i stop step = []" by (subst range_up.simps) simp
    then show ?thesis using False by simp
  qed
qed

lemma neg_div_neg_ceil:
  fixes a m :: int
  assumes "0 < m"
  shows "- ((- a) div m) = (a + m - 1) div m"
proof -
  define q where "q = a div m"
  define r where "r = a mod m"
  have a: "a = r + q * m" by (simp add: q_def r_def)
  have r: "0 \<le> r" "r < m" using assms by (simp_all add: r_def)
  have lhs: "- ((- a) div m) = (if r = 0 then q else q + 1)"
    using assms by (simp add: zdiv_zminus1_eq_if q_def r_def)
  have "a + m - 1 = (r + m - 1) + q * m" using a by simp
  then have "(a + m - 1) div m = (r + m - 1) div m + q"
    using assms by (simp only: div_mult_self1) 
  moreover have "(r + m - 1) div m = (if r = 0 then 0 else 1)"
  proof (cases "r = 0")
    case True
    then show ?thesis using assms by (simp add: div_pos_pos_trivial)
  next
    case False
    have "r + m - 1 = (r - 1) + m" by simp
    moreover have "(r - 1) div m = 0" using r False by (simp add: div_pos_pos_trivial)
    ultimately have "(r + m - 1) div m = 1" using assms by (simp only: div_add_self2)
    then show ?thesis using False by simp
  qed
  ultimately show ?thesis using lhs by simp
qed

lemma ceiling_div_int:
  fixes a m :: int
  assumes "0 < m"
  shows "\<lceil>real_of_int a / real_of_int m\<rceil> = (a + m - 1) div m"
  using neg_div_neg_ceil [OF assms, of a] by (simp add: ceiling_divide_eq_div)


lemma range_up_below:
  "x \<in> set (range_up i n m) \<Longrightarrow> x < n"
proof (induction i n m rule: range_up.induct)
  case (1 i stop step)
  show ?case
  proof (cases "0 < step \<and> i < stop")
    case True
    then have "range_up i stop step = i # range_up (i + step) stop step"
      by (subst range_up.simps) simp
    then show ?thesis using 1 True by auto
  next
    case False
    then have "range_up i stop step = []" by (subst range_up.simps) simp
    then show ?thesis using 1 by simp
  qed
qed

lemma chunk_text_pos:
  assumes "0 < m"
  shows "chunk_text xs m =
         Inr (map (\<lambda>i. py_slice xs i (i + m)) (range_up 0 (int (length xs)) m))"
  using assms by (simp add: chunk_text_def py_range_def)

text \<open>
  Claim C1. For a maximum chunk size \<open>M > 0\<close> the chunker returns a list of chunks
  whose concatenation in order is the text; chunk \<open>k\<close> is the substring of length at
  most \<open>M\<close> that starts at position \<open>k * M\<close>; every chunk but the last has length
  exactly \<open>M\<close>; there are \<open>ceil(len(T) / M)\<close> chunks, and none for the empty text.
\<close>

theorem chunk_text_partition:
  assumes "0 < M"
  shows "\<exists>chunks. chunk_text T M = Inr chunks
           \<and> concat chunks = T
           \<and> (\<forall>k < length chunks. chunks ! k = take (nat M) (drop (k * nat M) T))
           \<and> (\<forall>k. Suc k < length chunks \<longrightarrow> length (chunks ! k) = nat M)
           \<and> int (length chunks) = \<lceil>real (length T) / real_of_int M\<rceil>
           \<and> (T = [] \<longrightarrow> chunks = [])"
proof -
  define starts where "starts = range_up 0 (int (length T)) M"
  define chunks where "chunks = map (\<lambda>i. py_slice T i (i + M)) starts"
  have res: "chunk_text T M = Inr chunks"
    using assms by (simp add: chunk_text_pos chunks_def starts_def)
  have cat: "concat chunks = T"
    using concat_range_up [of 0 M T] assms by (simp add: chunks_def starts_def)
  have len: "int (length chunks) = (int (length T) + M - 1) div M"
    using range_up_length [of M 0 "int (length T)"] assms
    by (auto simp: chunks_def starts_def div_pos_pos_trivial)
  have nth: "chunks ! k = take (nat M) (drop (k * nat M) T)" if "k < length chunks" for k
  proof -
    have k: "k < length starts" using that by (simp add: chunks_def)
    then have "starts ! k = int k * M"
      using range_up_nth [of M k 0 "int (length T)"] assms by (simp add: starts_def)
    moreover have "nat (int k * M) = k * nat M"
      using assms by (simp add: nat_mult_distrib)
    ultimately show ?thesis
      using k assms by (simp add: chunks_def py_slice_chunk)
  qed
  have full: "length (chunks ! k) = nat M" if "Suc k < length chunks" for k
  proof -
    have k: "Suc k < length starts" using that by (simp add: chunks_def)
    then have "starts ! Suc k = int (Suc k) * M"
      using range_up_nth [of M "Suc k" 0 "int (length T)"] assms by (simp add: starts_def)
    moreover have "starts ! Suc k < int (length T)"
      using range_up_below [of "starts ! Suc k" 0 "int (length T)" M] k
      by (simp add: starts_def)
    ultimately have "int (Suc k) * M < int (length T)" by simp
    moreover have "int (Suc k) * M = int (Suc k * nat M)"
      using assms by (simp only: of_nat_mult int_nat_eq) simp
    ultimately have "int (Suc k * nat M) < int (length T)" by (simp only:)
    then have "Suc k * nat M < length T" by (simp only: of_nat_less_iff)
    then have "k * nat M + nat M < length T" by simp
    then show ?thesis using nth [of k] that by simp
  qed
  have ceil: "int (length chunks) = \<lceil>real (length T) / real_of_int M\<rceil>"
    using ceiling_div_int [OF assms, of "int (length T)"] len by simp
  have emp: "T = [] \<longrightarrow> chunks = []"
    using cat by (auto simp: chunks_def starts_def range_up.simps)
  show ?thesis using res cat nth full ceil emp by blast
qed

text \<open>The theorem at a text of seven characters and \<open>M = 3\<close>.\<close>

theorem chunk_text_partition_witness:
  "(0::int) < 3 \<and> chunk_text [1, 2, 3, 4, 5, 6, 7 :: nat] 3 = Inr [[1, 2, 3], [4, 5, 6], [7]]"
  using chunk_text_partition [of 3 "[1, 2, 3, 4, 5, 6, 7 :: nat]"]
  by (simp add: chunk_text_def py_range_def range_up.simps py_slice_def slice_bound_def)

text \<open>
  Claim C8. At its default maximum chunk size the chunker returns a chunk list for every
  string and raises nothing; as a function of its arguments its result depends on nothing
  else.
\<close>

theorem chunk_text_total:
  "\<exists>chunks. chunk_text text default_max_chars = Inr chunks \<and> concat chunks = text"
proof -
  have "(0::int) < 3000" by simp
  then have "chunk_text text 3000 =
      Inr (map (\<lambda>i. py_slice text i (i + 3000)) (range_up 0 (int (length text)) 3000))"
    by (rule chunk_text_pos)
  moreover have "concat (map (\<lambda>i. py_slice text i (i + 3000)) (range_up 0 (int (length text)) 3000)) = text"
    using concat_range_up [of 0 3000 "text"] by simp
  ultimately show ?thesis by (simp add: default_max_chars_def)
qed

subsection \<open>The combiner\<close>

text \<open>
  Claim C5. The combiner joins the partial summaries in order with a newline (code point
  10) between them: the empty sequence gives the empty string, and \<open>[a, b, c]\<close> gives
  \<open>a\<close>, newline, \<open>b\<close>, newline, \<open>c\<close>.
\<close>

theorem combined_text_join:
  "combined_text [] = [] \<and> combined_text [a, b, c] = a @ [10] @ b @ [10] @ c"
  by (simp add: combined_text_def nl_def)

subsection \<open>The summary modes and the reduce request\<close>

lemma prompts_distinct:
  "short_prompt \<noteq> topic_prompt" "short_prompt \<noteq> bullet_prompt" "topic_prompt \<noteq> bullet_prompt"
  by (simp_all add: short_prompt_def topic_prompt_def bullet_prompt_def py_lines_def str_def)

lemma labels_distinct:
  "str ''Topic-wise Summary'' \<noteq> str ''Short Summary (Recommended)''"
  "str ''Bullet-point Summary'' \<noteq> str ''Short Summary (Recommended)''"
  "str ''Bullet-point Summary'' \<noteq> str ''Topic-wise Summary''"
  by (simp_all add: str_def)

lemma reduce_step_issued:
  "issued (snd (reduce_step client summary_type combined s)) =
   issued s @ [reduce_request (fst (summary_mode summary_type))
                 (snd (summary_mode summary_type)) combined]"
proof -
  obtain p b where m: "summary_mode summary_type = (p, b)"
    by (cases "summary_mode summary_type")
  show ?thesis
  proof (cases "client (issued s) (reduce_request p b combined)")
    case (Inl e)
    then show ?thesis by (simp add: reduce_step_def send_def display_def m)
  next
    case (Inr res)
    then show ?thesis
      by (cases "first_content res")
         (simp_all add: reduce_step_def send_def display_def m Let_def)
  qed
qed

text \<open>
  Claim C3. The label "Short Summary (Recommended)" selects the short-paragraph prompt and
  budget 170, "Topic-wise Summary" the topic-heading prompt and budget 600,
  "Bullet-point Summary" the bullet-list prompt and budget 300; the one request the
  reduce step issues has exactly that prompt as the content of its system message and
  exactly that budget as \<open>max_tokens\<close>, and the three prompts differ.
\<close>

theorem summary_mode_labels:
  "summary_mode (str ''Short Summary (Recommended)'') = (short_prompt, 170)
   \<and> summary_mode (str ''Topic-wise Summary'') = (topic_prompt, 600)
   \<and> summary_mode (str ''Bullet-point Summary'') = (bullet_prompt, 300)
   \<and> issued (snd (reduce_step client (str ''Short Summary (Recommended)'') combined s)) =
       issued s @
       [\<lparr>model = MODEL,
         messages = [\<lparr>role = str ''system'', content = short_prompt\<rparr>,
                     \<lparr>role = str ''user'', content = combined\<rparr>],
         max_tokens = 170\<rparr>]
   \<and> issued (snd (reduce_step client (str ''Topic-wise Summary'') combined s)) =
       issued s @
       [\<lparr>model = MODEL,
         messages = [\<lparr>role = str ''system'', content = topic_prompt\<rparr>,
                     \<lparr>role = str ''user'', content = combined\<rparr>],
         max_tokens = 600\<rparr>]
   \<and> issued (snd (reduce_step client (str ''Bullet-point Summary'') combined s)) =
       issued s @
       [\<lparr>model = MODEL,
         messages = [\<lparr>role = str ''system'', content = bullet_prompt\<rparr>,
                     \<lparr>role = str ''user'', content = combined\<rparr>],
         max_tokens = 300\<rparr>]
   \<and> short_prompt \<noteq> topic_prompt \<and> short_prompt \<noteq> bullet_prompt \<and> topic_prompt \<noteq> bullet_prompt"
proof -
  have m: "summary_mode (str ''Short Summary (Recommended)'') = (short_prompt, 170)"
    "summary_mode (str ''Topic-wise Summary'') = (topic_prompt, 600)"
    "summary_mode (str ''Bullet-point Summary'') = (bullet_prompt, 300)"
    using labels_distinct by (simp_all add: summary_mode_def)
  show ?thesis
    using prompts_distinct by (simp add: reduce_step_issued m reduce_request_def)
qed

text \<open>
  Claim C9. The dispatch is total with the bullet-point mode as its default: every label
  other than "Short Summary (Recommended)" and "Topic-wise Summary" selects the bullet-list
  prompt and budget 300.
\<close>

theorem summary_mode_default:
  assumes "summary_type \<noteq> str ''Short Summary (Recommended)''"
    and "summary_type \<noteq> str ''Topic-wise Summary''"
  shows "summary_mode summary_type = (bullet_prompt, 300)
         \<and> issued (snd (reduce_step client summary_type combined s)) =
             issued s @
             [\<lparr>model = MODEL,
               messages = [\<lparr>role = str ''system'', content = bullet_prompt\<rparr>,
                           \<lparr>role = str ''user'', content = combined\<rparr>],
               max_tokens = 300\<rparr>]"
  using assms by (simp add: reduce_step_issued reduce_request_def) (simp add: summary_mode_def)

text \<open>The default at a label that is none of the three literals.\<close>

theorem summary_mode_default_witness:
  "str ''Key points'' \<noteq> str ''Short Summary (Recommended)''
   \<and> str ''Key points'' \<noteq> str ''Topic-wise Summary''
   \<and> summary_mode (str ''Key points'') = (bullet_prompt, 300)"
proof -
  have a: "str ''Key points'' \<noteq> str ''Short Summary (Recommended)''"
    and b: "str ''Key points'' \<noteq> str ''Topic-wise Summary''"
    by (simp_all add: str_def)
  show ?thesis using a b summary_mode_default [OF a b] by simp
qed

subsection \<open>Stripping\<close>

lemma dropWhile_last:
  "dropWhile P xs \<noteq> [] \<Longrightarrow> last (dropWhile P xs) = last xs"
  by (induction xs) (auto split: if_splits)

lemma strip_blank_iff: "strip t = [] \<longleftrightarrow> (\<forall>c \<in> set t. isspace c)"
proof -
  have "strip t = [] \<longleftrightarrow> dropWhile isspace (rev (dropWhile isspace t)) = []"
    by (simp add: strip_def)
  also have "\<dots> \<longleftrightarrow> (\<forall>c \<in> set (dropWhile isspace t). isspace c)"
    by (simp add: dropWhile_eq_Nil_conv)
  also have "\<dots> \<longleftrightarrow> dropWhile isspace t = []"
  proof
    assume a: "\<forall>c \<in> set (dropWhile isspace t). isspace c"
    show "dropWhile isspace t = []"
    proof (rule ccontr)
      assume n: "dropWhile isspace t \<noteq> []"
      then have "\<not> isspace (hd (dropWhile isspace t))" by (rule hd_dropWhile)
      moreover have "hd (dropWhile isspace t) \<in> set (dropWhile isspace t)"
        using n by simp
      ultimately show False using a by blast
    qed
  next
    assume e: "dropWhile isspace t = []"
    show "\<forall>c \<in> set (dropWhile isspace t). isspace c" unfolding e by simp
  qed
  also have "\<dots> \<longleftrightarrow> (\<forall>c \<in> set t. isspace c)"
    by (simp add: dropWhile_eq_Nil_conv)
  finally show ?thesis .
qed

lemma strip_ends:
  assumes "strip s \<noteq> []"
  shows "\<not> isspace (hd (strip s))" and "\<not> isspace (last (strip s))"
proof -
  define d where "d = dropWhile isspace s"
  define e where "e = dropWhile isspace (rev d)"
  have se: "strip s = rev e" by (simp add: strip_def d_def e_def)
  have e: "e \<noteq> []" using assms se by simp
  then have rd: "rev d \<noteq> []" by (auto simp: e_def)
  then have d: "d \<noteq> []" by simp
  have "\<not> isspace (hd e)" using e unfolding e_def by (rule hd_dropWhile)
  then show "\<not> isspace (last (strip s))" using e by (simp add: se last_rev)
  have "last e = last (rev d)" using e unfolding e_def by (rule dropWhile_last)
  also have "\<dots> = hd d" using d by (simp add: last_rev)
  finally have "hd (strip s) = hd d" using e by (simp add: se hd_rev)
  moreover have "\<not> isspace (hd d)" using d unfolding d_def by (rule hd_dropWhile)
  ultimately show "\<not> isspace (hd (strip s))" by simp
qed

lemma strip_strip: "strip (strip s) = strip s"
proof (cases "strip s = []")
  case True
  have "strip [] = []" by (simp add: strip_def)
  then show ?thesis by (simp only: True)
next
  case False
  define u where "u = strip s"
  have h: "\<not> isspace (hd u)" and l: "\<not> isspace (last u)" and n: "u \<noteq> []"
    using strip_ends [OF False] False by (simp_all add: u_def)
  have 1: "dropWhile isspace u = u" using h n by (cases u) simp_all
  have "rev u \<noteq> []" "\<not> isspace (hd (rev u))" using l n by (simp_all add: hd_rev)
  then have 2: "dropWhile isspace (rev u) = rev u" by (cases "rev u") simp_all
  show ?thesis unfolding u_def [symmetric] by (simp add: strip_def 1 2)
qed

subsection \<open>The map step\<close>

lemma send_simps:
  "fst (send client req s) = client (issued s) req"
  "issued (snd (send client req s)) = issued s @ [req]"
  "shown (snd (send client req s)) = shown s"
  by (simp_all add: send_def)

lemma map_loop_shown: "shown (snd (map_loop client cs acc s)) = shown s"
proof (induction cs arbitrary: acc s)
  case Nil
  then show ?case by simp
next
  case (Cons chunk rest)
  show ?case
    by (auto simp: send_def Cons.IH split: sum.splits prod.splits)
qed

lemma map_loop_prefix:
  "\<exists>n \<le> length cs. issued (snd (map_loop client cs acc s)) =
       issued s @ map map_request (take n cs)"
proof (induction cs arbitrary: acc s)
  case Nil
  then show ?case by simp
next
  case (Cons chunk rest)
  define s' where "s' = s\<lparr>issued := issued s @ [map_request chunk]\<rparr>"
  have one: "issued s' = issued s @ map map_request (take 1 (chunk # rest))"
    by (simp add: s'_def)
  show ?case
  proof (cases "client (issued s) (map_request chunk)")
    case (Inl e)
    then have "issued (snd (map_loop client (chunk # rest) acc s)) = issued s'"
      by (simp add: send_def s'_def)
    then show ?thesis using one by (intro exI [of _ 1]) simp
  next
    case (Inr res)
    show ?thesis
    proof (cases "first_content res")
      case (Inl e)
      then have "issued (snd (map_loop client (chunk # rest) acc s)) = issued s'"
        using Inr by (simp add: send_def s'_def)
      then show ?thesis using one by (intro exI [of _ 1]) simp
    next
      case (Inr c)
      then have eq: "map_loop client (chunk # rest) acc s = map_loop client rest (acc @ [strip c]) s'"
        using \<open>client (issued s) (map_request chunk) = Inr res\<close> by (simp add: send_def s'_def)
      obtain n where n: "n \<le> length rest"
        "issued (snd (map_loop client rest (acc @ [strip c]) s')) =
           issued s' @ map map_request (take n rest)"
        using Cons.IH [of "acc @ [strip c]" s'] by blast
      have "issued (snd (map_loop client (chunk # rest) acc s)) =
            issued s @ map map_request (take (Suc n) (chunk # rest))"
        unfolding eq using n(2) by (simp add: s'_def)
      then show ?thesis
        using n(1) by (intro exI [of _ "Suc n"]) (simp del: map_loop.simps)
    qed
  qed
qed

lemma map_loop_complete:
  assumes "fst (map_loop client cs acc s) = Inr ps"
  shows "\<exists>raw. length raw = length cs \<and> ps = acc @ map strip raw
           \<and> issued (snd (map_loop client cs acc s)) = issued s @ map map_request cs
           \<and> (\<forall>n < length cs. \<exists>res.
                 client (issued s @ map map_request (take n cs)) (map_request (cs ! n)) = Inr res
                 \<and> first_content res = Inr (raw ! n))"
  using assms
proof (induction cs arbitrary: acc s)
  case Nil
  then show ?case by simp
next
  case (Cons chunk rest)
  define s' where "s' = s\<lparr>issued := issued s @ [map_request chunk]\<rparr>"
  from Cons.prems obtain res where res: "client (issued s) (map_request chunk) = Inr res"
    by (cases "client (issued s) (map_request chunk)") (simp_all add: send_def)
  from Cons.prems res obtain c where c: "first_content res = Inr c"
    by (cases "first_content res") (simp_all add: send_def)
  have eq: "map_loop client (chunk # rest) acc s = map_loop client rest (acc @ [strip c]) s'"
    using res c by (simp add: send_def s'_def)
  then have "fst (map_loop client rest (acc @ [strip c]) s') = Inr ps"
    using Cons.prems by simp
  from Cons.IH [OF this] obtain raw where raw:
    "length raw = length rest" "ps = (acc @ [strip c]) @ map strip raw"
    "issued (snd (map_loop client rest (acc @ [strip c]) s')) = issued s' @ map map_request rest"
    "\<forall>n < length rest. \<exists>res.
        client (issued s' @ map map_request (take n rest)) (map_request (rest ! n)) = Inr res
        \<and> first_content res = Inr (raw ! n)"
    by blast
  have each: "\<exists>res. client (issued s @ map map_request (take n (chunk # rest)))
                  (map_request ((chunk # rest) ! n)) = Inr res
                \<and> first_content res = Inr ((c # raw) ! n)"
    if "n < length (chunk # rest)" for n
  proof (cases n)
    case 0
    then show ?thesis using res c by simp
  next
    case (Suc m)
    then have "m < length rest" using that by simp
    then show ?thesis using raw(4) Suc by (simp add: s'_def)
  qed
  have all: "issued (snd (map_loop client (chunk # rest) acc s)) =
      issued s @ map map_request (chunk # rest)"
    unfolding eq using raw(3) by (simp add: s'_def)
  show ?case
    using raw(1,2) all each by (intro exI [of _ "c # raw"]) (simp del: map_loop.simps)
qed

lemma take6_length: "length (take 6 chunks) = min (length chunks) 6"
  by (simp add: min.commute)

lemma take_take6: "n \<le> min (length chunks) 6 \<Longrightarrow> take n (take 6 chunks) = take n chunks"
  by (simp add: min_def split: if_splits)

text \<open>
  Claim C2. For a chunk sequence of length \<open>K\<close> the requests of the map step are the
  requests for the first chunks, one per chunk and in chunk order, and never for a chunk
  beyond the sixth; a map step that completes has issued exactly \<open>min(K, 6)\<close> of them
  and collected as many partial summaries, the \<open>N\<close>-th one being the stripped answer to
  the request for the \<open>N\<close>-th chunk.
\<close>

theorem map_step_requests:
  "(\<exists>n \<le> min (length chunks) 6.
       issued (snd (map_step client chunks s)) = issued s @ map map_request (take n chunks))
   \<and> (\<forall>ps. fst (map_step client chunks s) = Inr ps \<longrightarrow>
          issued (snd (map_step client chunks s)) = issued s @ map map_request (take 6 chunks)
        \<and> length (issued (snd (map_step client chunks s))) =
            length (issued s) + min (length chunks) 6
        \<and> length ps = min (length chunks) 6
        \<and> (\<forall>n < length ps. \<exists>res c.
               client (issued s @ map map_request (take n chunks)) (map_request (chunks ! n))
                 = Inr res
               \<and> first_content res = Inr c \<and> ps ! n = strip c))"
proof -
  obtain n where n: "n \<le> length (take 6 chunks)"
    "issued (snd (map_loop client (take 6 chunks) [] s)) =
       issued s @ map map_request (take n (take 6 chunks))"
    using map_loop_prefix [of "take 6 chunks" client "[]" s] by blast
  have "n \<le> min (length chunks) 6" using n(1) by (simp add: take6_length)
  then have pre: "\<exists>n \<le> min (length chunks) 6.
       issued (snd (map_step client chunks s)) = issued s @ map map_request (take n chunks)"
    using n(2) take_take6 [of n chunks] by (auto simp: map_step_def)
  have comp: "issued (snd (map_step client chunks s)) = issued s @ map map_request (take 6 chunks)
        \<and> length (issued (snd (map_step client chunks s))) =
            length (issued s) + min (length chunks) 6
        \<and> length ps = min (length chunks) 6
        \<and> (\<forall>n < length ps. \<exists>res c.
               client (issued s @ map map_request (take n chunks)) (map_request (chunks ! n))
                 = Inr res
               \<and> first_content res = Inr c \<and> ps ! n = strip c)"
    if "fst (map_step client chunks s) = Inr ps" for ps
  proof -
    have "fst (map_loop client (take 6 chunks) [] s) = Inr ps"
      using that by (simp add: map_step_def)
    from map_loop_complete [OF this] obtain raw where raw:
      "length raw = length (take 6 chunks)" "ps = map strip raw"
      "issued (snd (map_loop client (take 6 chunks) [] s)) =
         issued s @ map map_request (take 6 chunks)"
      "\<forall>n < length (take 6 chunks). \<exists>res.
          client (issued s @ map map_request (take n (take 6 chunks)))
            (map_request (take 6 chunks ! n)) = Inr res
          \<and> first_content res = Inr (raw ! n)"
      by auto
    have i: "issued (snd (map_step client chunks s)) = issued s @ map map_request (take 6 chunks)"
      using raw(3) by (simp add: map_step_def)
    have j: "length (issued (snd (map_step client chunks s))) =
            length (issued s) + min (length chunks) 6"
      by (simp add: i min.commute)
    have len: "length ps = min (length chunks) 6"
      using raw(1,2) by (simp add: min.commute)
    have each: "\<exists>res c.
            client (issued s @ map map_request (take n chunks)) (map_request (chunks ! n)) = Inr res
            \<and> first_content res = Inr c \<and> ps ! n = strip c"
      if n: "n < length ps" for n
    proof -
      have n6: "n < length (take 6 chunks)" using n raw(1,2) by simp
      then obtain res where res:
        "client (issued s @ map map_request (take n (take 6 chunks)))
            (map_request (take 6 chunks ! n)) = Inr res"
        "first_content res = Inr (raw ! n)"
        using raw(4) by blast
      have "take n (take 6 chunks) = take n chunks"
        using n len by (intro take_take6) simp
      moreover have "take 6 chunks ! n = chunks ! n" using n6 by simp
      moreover have "ps ! n = strip (raw ! n)" using n raw(1,2) by simp
      ultimately show ?thesis using res by auto
    qed
    show ?thesis using i j len each by blast
  qed
  show ?thesis using pre comp by blast
qed

text \<open>Eight chunks and a client with seven answers: six requests, six summaries.\<close>

theorem map_step_requests_witness:
  "fst (map_step
          (scripted_client [str '' one '', str ''two'', str ''three'', str ''four'',
                            str ''five'', str ''six'', str ''seven''])
          [str ''a'', str ''b'', str ''c'', str ''d'', str ''e'', str ''f'', str ''g'', str ''h'']
          start)
     = Inr [str ''one'', str ''two'', str ''three'', str ''four'', str ''five'', str ''six'']
   \<and> issued (snd (map_step
          (scripted_client [str '' one '', str ''two'', str ''three'', str ''four'',
                            str ''five'', str ''six'', str ''seven''])
          [str ''a'', str ''b'', str ''c'', str ''d'', str ''e'', str ''f'', str ''g'', str ''h'']
          start))
     = [map_request (str ''a''), map_request (str ''b''), map_request (str ''c''),
        map_request (str ''d''), map_request (str ''e''), map_request (str ''f'')]"
  using map_step_requests
    [of "[str ''a'', str ''b'', str ''c'', str ''d'', str ''e'', str ''f'', str ''g'', str ''h'']"
        "scripted_client [str '' one '', str ''two'', str ''three'', str ''four'',
                            str ''five'', str ''six'', str ''seven'']" start]
  by (simp add: map_step_def send_def start_def scripted_client_def first_content_def
        strip_def isspace_def str_def)

text \<open>
  Claim C7, with the instruction as the script spells it. Every request of the map step
  carries the system instruction "Extract only key ideas. No explanations.", one of the
  first six chunks as the user message, and the output-length budget 120.
\<close>

theorem map_request_shape:
  "\<forall>r \<in> set (drop (length (issued s)) (issued (snd (map_step client chunks s)))).
     \<exists>chunk \<in> set (take 6 chunks).
       r = \<lparr>model = MODEL,
            messages = [\<lparr>role = str ''system'',
                          content = str ''Extract only key ideas. No explanations.''\<rparr>,
                        \<lparr>role = str ''user'', content = chunk\<rparr>],
            max_tokens = 120\<rparr>"
proof -
  obtain n where n:
    "issued (snd (map_loop client (take 6 chunks) [] s)) =
       issued s @ map map_request (take n (take 6 chunks))"
    using map_loop_prefix [of "take 6 chunks" client "[]" s] by blast
  have "drop (length (issued s)) (issued (snd (map_step client chunks s))) =
        map map_request (take n (take 6 chunks))"
    by (simp add: map_step_def n)
  moreover have "set (take n (take 6 chunks)) \<subseteq> set (take 6 chunks)"
    by (rule set_take_subset)
  ultimately show ?thesis
    by (auto simp: map_request_def map_system_prompt_def)
qed

text \<open>The request of a map step over the single chunk "Hello world.".\<close>

theorem map_request_shape_witness:
  "issued (snd (map_step (scripted_client [str ''idea'']) [hello] start)) =
     [\<lparr>model = MODEL,
       messages = [\<lparr>role = str ''system'',
                     content = str ''Extract only key ideas. No explanations.''\<rparr>,
                   \<lparr>role = str ''user'', content = hello\<rparr>],
       max_tokens = 120\<rparr>]"
  using map_request_shape [of start "scripted_client [str ''idea'']" "[hello]"]
  by (simp add: map_step_def send_def start_def scripted_client_def first_content_def
        map_request_def map_system_prompt_def)

text \<open>
  The instruction of that request is not the lower-case, comma-separated string
  "extract only key ideas, no explanations".
\<close>

theorem map_system_prompt_counterexample:
  "content (hd (messages (hd (issued (snd (map_step (scripted_client [str ''idea'']) [hello] start))))))
     \<noteq> str ''extract only key ideas, no explanations''"
  by (simp add: map_step_def send_def start_def scripted_client_def first_content_def
        map_request_def map_system_prompt_def str_def)

text \<open>
  Claim C10. Each partial summary is the answer of its request stripped on its own before
  it is collected: the partial summaries of a completed map step are the stripped first
  contents of the answers, in order, the combined text is their newline-join, and no
  partial summary begins or ends with whitespace.
\<close>

theorem partial_summaries_stripped:
  assumes "fst (map_step client chunks s) = Inr ps"
  shows "\<exists>raw. length raw = min (length chunks) 6
           \<and> (\<forall>n < length raw. \<exists>res.
                 client (issued s @ map map_request (take n chunks)) (map_request (chunks ! n))
                   = Inr res
                 \<and> first_content res = Inr (raw ! n))
           \<and> ps = map strip raw
           \<and> combined_text ps = join [nl] (map strip raw)
           \<and> (\<forall>p \<in> set ps. strip p = p \<and> (p = [] \<or> (\<not> isspace (hd p) \<and> \<not> isspace (last p))))"
proof -
  have "fst (map_loop client (take 6 chunks) [] s) = Inr ps"
    using assms by (simp add: map_step_def)
  from map_loop_complete [OF this] obtain raw where raw:
    "length raw = length (take 6 chunks)" "ps = map strip raw"
    "\<forall>n < length (take 6 chunks). \<exists>res.
        client (issued s @ map map_request (take n (take 6 chunks)))
          (map_request (take 6 chunks ! n)) = Inr res
        \<and> first_content res = Inr (raw ! n)"
    by auto
  have len: "length raw = min (length chunks) 6"
    using raw(1) by (simp add: min.commute)
  have each: "\<exists>res. client (issued s @ map map_request (take n chunks)) (map_request (chunks ! n))
                   = Inr res \<and> first_content res = Inr (raw ! n)"
    if "n < length raw" for n
  proof -
    have n6: "n < length (take 6 chunks)" using that raw(1) by simp
    have "take n (take 6 chunks) = take n chunks"
      using that len by (intro take_take6) simp
    moreover have "take 6 chunks ! n = chunks ! n" using n6 by simp
    ultimately show ?thesis using raw(3) n6 by auto
  qed
  have clean: "strip p = p \<and> (p = [] \<or> (\<not> isspace (hd p) \<and> \<not> isspace (last p)))"
    if "p \<in> set ps" for p
  proof -
    have "p \<in> strip ` set raw" using that by (simp add: raw(2))
    then obtain r where p: "p = strip r" by blast
    have "strip p = p" by (simp only: p strip_strip)
    moreover have "p = [] \<or> (\<not> isspace (hd p) \<and> \<not> isspace (last p))"
      using strip_ends [of r] unfolding p by blast
    ultimately show ?thesis by blast
  qed
  have ct: "combined_text ps = join [nl] (map strip raw)"
    by (simp only: combined_text_def raw(2))
  have "length raw = min (length chunks) 6
           \<and> (\<forall>n < length raw. \<exists>res.
                 client (issued s @ map map_request (take n chunks)) (map_request (chunks ! n))
                   = Inr res
                 \<and> first_content res = Inr (raw ! n))
           \<and> ps = map strip raw
           \<and> combined_text ps = join [nl] (map strip raw)
           \<and> (\<forall>p \<in> set ps. strip p = p \<and> (p = [] \<or> (\<not> isspace (hd p) \<and> \<not> isspace (last p))))"
    using len each clean raw(2) ct by blast
  then show ?thesis by (rule exI [of _ raw])
qed

text \<open>
  Two answers with a space, a tab, a newline and a no-break space around them.
\<close>

theorem partial_summaries_stripped_witness:
  "fst (map_step (scripted_client [[32, 9] @ str ''first'' @ [10], [160] @ str ''second  ''])
          [str ''a'', str ''b''] start)
     = Inr [str ''first'', str ''second'']
   \<and> combined_text [str ''first'', str ''second''] = str ''first'' @ [10] @ str ''second''"
  using partial_summaries_stripped
    [of "scripted_client [[32, 9] @ str ''first'' @ [10], [160] @ str ''second  '']"
        "[str ''a'', str ''b'']" start "[str ''first'', str ''second'']"]
  by (simp add: map_step_def send_def start_def scripted_client_def first_content_def
        strip_def isspace_def str_def combined_text_def nl_def)

subsection \<open>The run\<close>

text \<open>
  Claim C4. When the extraction returns no text, or a text that is empty or consists of
  whitespace only, the run shows the error "Unsupported or empty file." and ends without
  having issued a request to the language model.
\<close>

theorem empty_extraction_halts:
  assumes "text = None \<or> (\<exists>t. text = Some t \<and> (\<forall>c \<in> set t. isspace c))"
  shows "pipeline client summary_type text =
           (Inr (), \<lparr>issued = [], shown = [Error (str ''Unsupported or empty file.'')]\<rparr>)"
  using assms
  by (auto simp: pipeline_def halt_empty_def display_def start_def strip_blank_iff)

text \<open>A text of a space, a tab and a newline, and the absent text.\<close>

theorem empty_extraction_halts_witness:
  "isspace 32 \<and> isspace 9 \<and> isspace 10
   \<and> pipeline (scripted_client [hello]) (str ''Topic-wise Summary'') (Some [32, 9, 10]) =
       (Inr (), \<lparr>issued = [], shown = [Error (str ''Unsupported or empty file.'')]\<rparr>)
   \<and> pipeline (scripted_client [hello]) (str ''Topic-wise Summary'') None =
       (Inr (), \<lparr>issued = [], shown = [Error (str ''Unsupported or empty file.'')]\<rparr>)"
  using empty_extraction_halts [of "Some [32, 9, 10]" "scripted_client [hello]" "str ''Topic-wise Summary''"]
    empty_extraction_halts [of None "scripted_client [hello]" "str ''Topic-wise Summary''"]
  by (simp add: isspace_def)

lemma pipeline_completed_map:
  assumes "strip t \<noteq> []"
    and "chunk_text t default_max_chars = Inr chunks"
    and "map_step client chunks (display (Spinner (str ''Reading document...'')) start) = (Inr ps, s)"
  shows "pipeline client summary_type (Some t) =
           reduce_step client summary_type (combined_text ps) s"
proof -
  have "t \<noteq> []" using assms(1) by (auto simp: strip_def)
  then show ?thesis using assms by (simp add: pipeline_def)
qed

text \<open>
  Claim C6. For every combined text and every selected mode the reduce step issues exactly
  one request: its system message is the prompt of the selected mode, its user message is
  the combined text and its \<open>max_tokens\<close> is the budget of the selected mode. When the
  client answers it with a response whose first choice has a content, the run ends
  normally and the last element shown, after the success message and the subheader, is
  that content with the whitespace at both ends removed.
\<close>

theorem reduce_step_final_summary:
  "issued (snd (reduce_step client summary_type combined s)) =
     issued s @
     [\<lparr>model = MODEL,
       messages = [\<lparr>role = str ''system'', content = fst (summary_mode summary_type)\<rparr>,
                   \<lparr>role = str ''user'', content = combined\<rparr>],
       max_tokens = snd (summary_mode summary_type)\<rparr>]
   \<and> (\<forall>res c.
         client (issued s)
           \<lparr>model = MODEL,
            messages = [\<lparr>role = str ''system'', content = fst (summary_mode summary_type)\<rparr>,
                        \<lparr>role = str ''user'', content = combined\<rparr>],
            max_tokens = snd (summary_mode summary_type)\<rparr> = Inr res
         \<and> first_content res = Inr c \<longrightarrow>
         reduce_step client summary_type combined s =
           (Inr (),
            \<lparr>issued = issued s @
               [\<lparr>model = MODEL,
                 messages = [\<lparr>role = str ''system'', content = fst (summary_mode summary_type)\<rparr>,
                             \<lparr>role = str ''user'', content = combined\<rparr>],
                 max_tokens = snd (summary_mode summary_type)\<rparr>],
             shown = shown s @
               [Spinner (str ''Generating summary...''), Success (str ''Summary Generated''),
                Subheader (str ''Summary''), Markdown (strip c)]\<rparr>))"
proof -
  obtain p b where m: "summary_mode summary_type = (p, b)"
    by (cases "summary_mode summary_type")
  have one: "issued (snd (reduce_step client summary_type combined s)) =
     issued s @
     [\<lparr>model = MODEL,
       messages = [\<lparr>role = str ''system'', content = p\<rparr>,
                   \<lparr>role = str ''user'', content = combined\<rparr>],
       max_tokens = b\<rparr>]"
    by (simp add: reduce_step_issued m reduce_request_def)
  have fin: "reduce_step client summary_type combined s =
           (Inr (),
            \<lparr>issued = issued s @
               [\<lparr>model = MODEL,
                 messages = [\<lparr>role = str ''system'', content = p\<rparr>,
                             \<lparr>role = str ''user'', content = combined\<rparr>],
                 max_tokens = b\<rparr>],
             shown = shown s @
               [Spinner (str ''Generating summary...''), Success (str ''Summary Generated''),
                Subheader (str ''Summary''), Markdown (strip c)]\<rparr>)"
    if "client (issued s)
           \<lparr>model = MODEL,
            messages = [\<lparr>role = str ''system'', content = p\<rparr>,
                        \<lparr>role = str ''user'', content = combined\<rparr>],
            max_tokens = b\<rparr> = Inr res"
      and "first_content res = Inr c" for res c
    using that
    by (simp add: reduce_step_def m reduce_request_def send_def display_def Let_def)
  show ?thesis using one fin by (simp add: m)
qed

text \<open>
  The reduce step of the run on "Hello world." in the short mode, after the map request
  was answered with "  key idea ": the final response " The final summary. " is shown
  as "The final summary.".
\<close>

theorem reduce_step_final_summary_witness:
  "reduce_step (scripted_client [str ''  key idea '', str '' The final summary. ''])
      (str ''Short Summary (Recommended)'') (str ''key idea'')
      \<lparr>issued = [map_request hello], shown = [Spinner (str ''Reading document...'')]\<rparr> =
     (Inr (),
      \<lparr>issued = [map_request hello,
                 \<lparr>model = MODEL,
                  messages = [\<lparr>role = str ''system'', content = short_prompt\<rparr>,
                              \<lparr>role = str ''user'', content = str ''key idea''\<rparr>],
                  max_tokens = 170\<rparr>],
       shown = [Spinner (str ''Reading document...''), Spinner (str ''Generating summary...''),
                Success (str ''Summary Generated''), Subheader (str ''Summary''),
                Markdown (str ''The final summary.'')]\<rparr>)"
  using reduce_step_final_summary
    [of "scripted_client [str ''  key idea '', str '' The final summary. '']"
        "str ''Short Summary (Recommended)''" "str ''key idea''"
        "\<lparr>issued = [map_request hello], shown = [Spinner (str ''Reading document...'')]\<rparr>"]
  by (simp add: summary_mode_def scripted_client_def first_content_def strip_def isspace_def
        str_def)

text \<open>
  The whole run on "Hello world.": one map request, one reduce request, and the final
  summary shown last.
\<close>

lemma pipeline_hello_run:
  "pipeline (scripted_client [str ''  key idea '', str '' The final summary. ''])
      (str ''Short Summary (Recommended)'') (Some hello) =
     (Inr (),
      \<lparr>issued = [map_request hello,
                 \<lparr>model = MODEL,
                  messages = [\<lparr>role = str ''system'', content = short_prompt\<rparr>,
                              \<lparr>role = str ''user'', content = str ''key idea''\<rparr>],
                  max_tokens = 170\<rparr>],
       shown = [Spinner (str ''Reading document...''), Spinner (str ''Generating summary...''),
                Success (str ''Summary Generated''), Subheader (str ''Summary''),
                Markdown (str ''The final summary.'')]\<rparr>)"
  by (simp add: pipeline_def hello_def chunk_text_def py_range_def range_up.simps
        default_max_chars_def py_slice_def slice_bound_def map_step_def send_def display_def
        start_def scripted_client_def first_content_def combined_text_def reduce_step_def
        reduce_request_def summary_mode_def strip_def isspace_def str_def)

text \<open>
  A final response whose first choice has no content: the run has shown the success
  message and the subheader when \<open>.strip()\<close> raises.
\<close>

lemma reduce_step_unusable_final_response:
  "reduce_step (\<lambda>history req. Inr [None]) (str ''Topic-wise Summary'') combined start =
     (Inl AttributeError,
      \<lparr>issued = [\<lparr>model = MODEL,
                  messages = [\<lparr>role = str ''system'', content = topic_prompt\<rparr>,
                              \<lparr>role = str ''user'', content = combined\<rparr>],
                  max_tokens = 600\<rparr>],
       shown = [Spinner (str ''Generating summary...''), Success (str ''Summary Generated''),
                Subheader (str ''Summary'')]\<rparr>)"
  using labels_distinct
  by (simp add: reduce_step_def summary_mode_def reduce_request_def send_def display_def
        start_def first_content_def)

end
